theory Spec2Isabelle
  imports Main
begin

section \<open>Data model of the dashboard (src/app/dashboard/page.tsx)\<close>

text \<open>
  A row of the table \<^verbatim>\<open>bookmarks\<close>: \<^verbatim>\<open>id\<close>, \<^verbatim>\<open>user_id\<close>, \<^verbatim>\<open>title\<close>, \<^verbatim>\<open>url\<close>,
  \<^verbatim>\<open>created_at\<close>. Identifiers are JavaScript strings; the timestamp is only ever
  compared, so it is a natural number. The fields \<^verbatim>\<open>id\<close>, \<^verbatim>\<open>title\<close> and \<^verbatim>\<open>url\<close>
  are written \<open>bid\<close>, \<open>b_title\<close> and \<open>b_url\<close>, since the component state below has
  fields \<open>title\<close> and \<open>url\<close> of its own.
\<close>

record bookmark =
  bid :: string
  user_id :: string
  b_title :: string
  b_url :: string
  created_at :: nat

text \<open>
  The \<^verbatim>\<open>payload.old\<close> of a DELETE event: the handler reads its \<^verbatim>\<open>id\<close> only; the
  owner may or may not be part of the old row.
\<close>

record old_row =
  old_id :: string
  old_user_id :: "string option"

text \<open>
  The nine \<^verbatim>\<open>useState\<close> cells of \<^verbatim>\<open>Dashboard\<close> (lines 10 to 18). Of the
  \<^verbatim>\<open>User\<close> object the handlers read \<^verbatim>\<open>user.id\<close> only, so \<open>user\<close> holds that id;
  \<^verbatim>\<open>!user\<close> is \<open>user s = None\<close>.
\<close>

record dashboard =
  user :: "string option"
  loading :: bool
  title :: string
  url :: string
  submitting :: bool
  bookmarks :: "bookmark list"
  deleting :: "string option"
  fetchingBookmarks :: bool
  error :: "string option"

definition initial :: dashboard where
  "initial = \<lparr>user = None, loading = True, title = [], url = [], submitting = False,
     bookmarks = [], deleting = None, fetchingBookmarks = False, error = None\<rparr>"

text \<open>
  The answer of a store call, destructured in the source as \<^verbatim>\<open>{ data, error }\<close>:
  \<open>err\<close> is the \<^verbatim>\<open>message\<close> of the error object, \<open>None\<close> when \<^verbatim>\<open>error\<close> is null.
\<close>

record 'a response =
  data :: "'a option"
  err :: "string option"

text \<open>
  The three queries the component builds: \<^verbatim>\<open>select('*').eq(..).order(..)\<close>,
  \<^verbatim>\<open>insert({user_id, title, url}).select()\<close> and \<^verbatim>\<open>delete().eq(..).eq(..)\<close>,
  each on a table; the \<^verbatim>\<open>eq\<close> filters are (column, value) pairs in call order.
\<close>

datatype request =
  SelectReq string "(string \<times> string) list" string bool
| InsertReq string string string string
| DeleteReq string "(string \<times> string) list"

text \<open>The two callbacks handed to \<^verbatim>\<open>setTimeout(.., 500)\<close>, with what each closes over.\<close>

datatype timer =
  InsertFallback "bookmark list option"
| DeleteFallback string

section \<open>The five updaters passed to \<^verbatim>\<open>setBookmarks\<close>\<close>

text \<open>\<^verbatim>\<open>current.some(b => b.id === i)\<close>\<close>

definition some_id :: "string \<Rightarrow> bookmark list \<Rightarrow> bool" where
  "some_id i current = list_ex (\<lambda>b. bid b = i) current"

text \<open>\<^verbatim>\<open>current.filter(b => b.id !== i)\<close>\<close>

definition without_id :: "string \<Rightarrow> bookmark list \<Rightarrow> bookmark list" where
  "without_id i current = filter (\<lambda>b. bid b \<noteq> i) current"

text \<open>
  Realtime INSERT handler (lines 76 to 84); \<open>uid\<close> is the \<^verbatim>\<open>user.id\<close> the effect
  closed over, \<open>new\<close> is \<^verbatim>\<open>payload.new\<close>.
\<close>

definition realtime_insert :: "string \<Rightarrow> bookmark \<Rightarrow> bookmark list \<Rightarrow> bookmark list" where
  "realtime_insert uid new current =
     (if user_id new = uid
      then (if some_id (bid new) current then current else new # current)
      else current)"

text \<open>Realtime DELETE handler (lines 94 to 100); \<open>old\<close> is \<^verbatim>\<open>payload.old\<close>.\<close>

definition realtime_delete :: "old_row \<Rightarrow> bookmark list \<Rightarrow> bookmark list" where
  "realtime_delete old current = without_id (old_id old) current"

text \<open>
  The fallback of \<^verbatim>\<open>handleSubmit\<close> (lines 157 to 164):
  \<^verbatim>\<open>data && data[0] && !current.some(b => b.id === data[0].id)\<close>. A null \<^verbatim>\<open>data\<close> and
  an empty array (\<^verbatim>\<open>data[0]\<close> undefined) both leave the list as it is.
\<close>

definition insert_fallback :: "bookmark list option \<Rightarrow> bookmark list \<Rightarrow> bookmark list" where
  "insert_fallback d current =
     (case d of
        None \<Rightarrow> current
      | Some [] \<Rightarrow> current
      | Some (r # _) \<Rightarrow> (if \<not> some_id (bid r) current then r # current else current))"

text \<open>The fallback of \<^verbatim>\<open>handleDelete\<close> (lines 192 to 200).\<close>

definition delete_fallback :: "string \<Rightarrow> bookmark list \<Rightarrow> bookmark list" where
  "delete_fallback i current =
     (if some_id i current then without_id i current else current)"

definition fire :: "timer \<Rightarrow> bookmark list \<Rightarrow> bookmark list" where
  "fire t current =
     (case t of InsertFallback d \<Rightarrow> insert_fallback d current
              | DeleteFallback i \<Rightarrow> delete_fallback i current)"

text \<open>
  Every change of the list goes through \<^verbatim>\<open>setBookmarks\<close>, which the source calls at
  five places: with the fetched rows (line 37), and with the four updaters above.
\<close>

datatype update =
  Fetched "bookmark list"
| RealtimeInsert bookmark
| RealtimeDelete old_row
| Fallback timer

definition setBookmarks :: "string \<Rightarrow> update \<Rightarrow> bookmark list \<Rightarrow> bookmark list" where
  "setBookmarks uid u current =
     (case u of
        Fetched d \<Rightarrow> d
      | RealtimeInsert new \<Rightarrow> realtime_insert uid new current
      | RealtimeDelete old \<Rightarrow> realtime_delete old current
      | Fallback t \<Rightarrow> fire t current)"

section \<open>The asynchronous handlers, split at their \<^verbatim>\<open>await\<close>\<close>

text \<open>
  A handler runs up to its \<^verbatim>\<open>await\<close> (\<open>_begin\<close>: the new state and the request
  issued, if any) and continues when the answer arrives (\<open>_resume\<close>: the new state and
  the timer scheduled, if any). Anything may run in between.

  JavaScript truthiness of a \<^verbatim>\<open>string | null\<close>: null and the empty string are falsy.
\<close>

definition truthy :: "string option \<Rightarrow> bool" where
  "truthy v = (case v of None \<Rightarrow> False | Some x \<Rightarrow> x \<noteq> [])"

text \<open>\<^verbatim>\<open>fetchBookmarks\<close> (lines 20 to 41).\<close>

definition fetchBookmarks_begin :: "string \<Rightarrow> dashboard \<Rightarrow> dashboard \<times> request option" where
  "fetchBookmarks_begin userId s =
     (if userId = [] then (s, None)
      else (s\<lparr>fetchingBookmarks := True, error := None\<rparr>,
            Some (SelectReq ''bookmarks'' [(''user_id'', userId)] ''created_at'' False)))"

definition fetchBookmarks_resume :: "bookmark list response \<Rightarrow> dashboard \<Rightarrow> dashboard" where
  "fetchBookmarks_resume r s =
     (case err r of
        Some m \<Rightarrow> s\<lparr>error := Some (''Failed to load bookmarks: '' @ m)\<rparr>
      | None \<Rightarrow> (case data r of Some d \<Rightarrow> s\<lparr>bookmarks := d\<rparr> | None \<Rightarrow> s))
     \<lparr>fetchingBookmarks := False\<rparr>"

text \<open>
  \<^verbatim>\<open>checkAuth\<close> of the first effect (lines 45 to 57), from the answer of
  \<^verbatim>\<open>getSession\<close> on: the new state, the fetch issued, and whether \<^verbatim>\<open>router.push('/')\<close>
  ran. With an empty user id \<^verbatim>\<open>fetchBookmarks\<close> returns at once and \<^verbatim>\<open>setLoading(false)\<close>
  follows immediately.
\<close>

definition checkAuth_begin :: "string option \<Rightarrow> dashboard \<Rightarrow> dashboard \<times> request option \<times> bool" where
  "checkAuth_begin session s =
     (case session of
        None \<Rightarrow> (s, None, True)
      | Some uid \<Rightarrow>
          (case fetchBookmarks_begin uid (s\<lparr>user := Some uid\<rparr>) of
             (s', None) \<Rightarrow> (s'\<lparr>loading := False\<rparr>, None, False)
           | (s', Some rq) \<Rightarrow> (s', Some rq, False)))"

definition checkAuth_resume :: "bookmark list response \<Rightarrow> dashboard \<Rightarrow> dashboard" where
  "checkAuth_resume r s = (fetchBookmarks_resume r s)\<lparr>loading := False\<rparr>"

text \<open>\<^verbatim>\<open>handleSubmit\<close> (lines 128 to 168).\<close>

definition handleSubmit_begin :: "dashboard \<Rightarrow> dashboard \<times> request option" where
  "handleSubmit_begin s =
     (case user s of
        None \<Rightarrow> (s\<lparr>error := Some ''You must be logged in to add bookmarks''\<rparr>, None)
      | Some uid \<Rightarrow>
          (if title s = [] \<or> url s = [] then (s, None)
           else (s\<lparr>submitting := True, error := None\<rparr>,
                 Some (InsertReq ''bookmarks'' uid (title s) (url s)))))"

definition handleSubmit_resume :: "bookmark list response \<Rightarrow> dashboard \<Rightarrow> dashboard \<times> timer option" where
  "handleSubmit_resume r s =
     (case err r of
        Some m \<Rightarrow>
          (s\<lparr>error := Some (''Failed to add bookmark: '' @ m), submitting := False\<rparr>, None)
      | None \<Rightarrow>
          (s\<lparr>title := [], url := [], submitting := False\<rparr>, Some (InsertFallback (data r))))"

text \<open>\<^verbatim>\<open>handleDelete\<close> (lines 170 to 204).\<close>

definition handleDelete_begin :: "string \<Rightarrow> dashboard \<Rightarrow> dashboard \<times> request option" where
  "handleDelete_begin i s =
     (case user s of
        None \<Rightarrow> (s\<lparr>error := Some ''You must be logged in to delete bookmarks''\<rparr>, None)
      | Some uid \<Rightarrow>
          (if truthy (deleting s) then (s, None)
           else (s\<lparr>deleting := Some i, error := None\<rparr>,
                 Some (DeleteReq ''bookmarks'' [(''id'', i), (''user_id'', uid)]))))"

definition handleDelete_resume :: "string \<Rightarrow> unit response \<Rightarrow> dashboard \<Rightarrow> dashboard \<times> timer option" where
  "handleDelete_resume i r s =
     (case err r of
        Some m \<Rightarrow>
          (s\<lparr>error := Some (''Failed to delete bookmark: '' @ m), deleting := None\<rparr>, None)
      | None \<Rightarrow> (s\<lparr>deleting := None\<rparr>, Some (DeleteFallback i)))"

text \<open>
  The initial load: \<^verbatim>\<open>checkAuth\<close> on the initial state with a session of \<open>uid\<close>,
  continued with the store's answer \<open>r\<close> to the fetch. \<^verbatim>\<open>setUser\<close> runs before the
  fetch is awaited (lines 54 and 55) and the second effect subscribes as soon as
  \<^verbatim>\<open>user\<close> is set, so the realtime handlers can run while the fetch is awaited: \<open>us\<close>
  are the calls of \<^verbatim>\<open>setBookmarks\<close> made in between, in their order.
\<close>

definition initial_load :: "string \<Rightarrow> update list \<Rightarrow> bookmark list response \<Rightarrow> dashboard" where
  "initial_load uid us r =
     checkAuth_resume r
       ((fst (checkAuth_begin (Some uid) initial))
          \<lparr>bookmarks := fold (setBookmarks uid) us
                          (bookmarks (fst (checkAuth_begin (Some uid) initial)))\<rparr>)"

section \<open>The record store\<close>

text \<open>
  Modelled from the spec: the record store is an external service, no source of it is
  in the repository. Section 6 of the specification gives its interface,
  \<^verbatim>\<open>select(owner) -> ordered list\<close>, \<^verbatim>\<open>insert(record) -> created record\<close>,
  \<^verbatim>\<open>delete(id, owner) -> ack\<close>, all scoped by owner identity and all able to fail with
  a message. The README of the repository states the table and its row-level policies;
  the delete below follows its delete policy. A store is the list of its rows (of every
  owner). \<open>column\<close> reads the text
  columns a filter of the component can name; \<open>matches\<close> is the conjunction of the
  \<^verbatim>\<open>eq\<close> filters of a request.
\<close>

definition column :: "string \<Rightarrow> bookmark \<Rightarrow> string option" where
  "column c b =
     (if c = ''id'' then Some (bid b)
      else if c = ''user_id'' then Some (user_id b)
      else if c = ''title'' then Some (b_title b)
      else if c = ''url'' then Some (b_url b)
      else None)"

definition matches :: "(string \<times> string) list \<Rightarrow> bookmark \<Rightarrow> bool" where
  "matches eqs b = list_all (\<lambda>(c, v). column c b = Some v) eqs"

text \<open>
  Modelled from the spec: \<^verbatim>\<open>select\<close> of the external store. The rows that pass the
  filters, ordered by creation timestamp as the request asks (descending when
  \<open>ascending\<close> is false); no other ordering column is used by the component.
\<close>

definition store_select :: "(string \<times> string) list \<Rightarrow> string \<Rightarrow> bool \<Rightarrow> bookmark list \<Rightarrow> bookmark list" where
  "store_select eqs col ascending rows =
     (let m = filter (matches eqs) rows in
      if col = ''created_at''
      then (if ascending then sort_key created_at m else rev (sort_key created_at m))
      else m)"

text \<open>
  Modelled from the spec: \<^verbatim>\<open>insert\<close> of the external store, for the authenticated
  identity \<open>auth\<close>. The store assigns the identifier \<open>new_id\<close> and the timestamp \<open>ts\<close>,
  refuses a row for another owner, and answers with the created row
  (\<^verbatim>\<open>.insert(..).select()\<close>).
\<close>

definition store_insert :: "string \<Rightarrow> string \<Rightarrow> nat \<Rightarrow> string \<Rightarrow> string \<Rightarrow> string \<Rightarrow> bookmark list
    \<Rightarrow> bookmark list \<times> bookmark list response" where
  "store_insert auth new_id ts uid t u rows =
     (if uid \<noteq> auth then (rows, \<lparr>data = None, err = Some ''not authorized''\<rparr>)
      else (let r = \<lparr>bid = new_id, user_id = uid, b_title = t, b_url = u, created_at = ts\<rparr>
            in (rows @ [r], \<lparr>data = Some [r], err = None\<rparr>)))"

text \<open>
  \<^verbatim>\<open>delete\<close> of the store, for the authenticated identity \<open>auth\<close>, under the policy the
  repository's README sets on the table:
  \<^verbatim>\<open>CREATE POLICY "Users can delete own bookmarks" ON bookmarks FOR DELETE USING (auth.uid() = user_id)\<close>.
  The delete sees the rows of \<open>auth\<close> only: it removes those of them that pass all
  filters, skips the rows of other owners silently, and reports no error.
\<close>

definition store_delete :: "string \<Rightarrow> (string \<times> string) list \<Rightarrow> bookmark list
    \<Rightarrow> bookmark list \<times> unit response" where
  "store_delete auth eqs rows =
     (filter (\<lambda>b. \<not> (matches eqs b \<and> user_id b = auth)) rows, \<lparr>data = None, err = None\<rparr>)"

section \<open>The component in its environment\<close>

text \<open>
  The event loop around the component: the store calls a handler awaits, each with its
  answer under way (\<open>inflight\<close>); the \<^verbatim>\<open>setTimeout\<close> callbacks not yet run, oldest
  first (\<open>timers\<close>; all have the same delay of 500, so they run in the order they were
  set); the realtime subscription of the second effect, with the \<^verbatim>\<open>user.id\<close> its
  handlers closed over (\<open>channel\<close>); the change notifications on their way to this
  subscription (\<open>feed\<close>); the rows of the store; the session \<^verbatim>\<open>getSession\<close> returns.
  The store, the feed and the session provider are external services: the store acts
  through the three functions above, the feed carries, as the specification has it, the
  new row of an insert and the old row of a delete to the subscription whose owner
  filter the row passes. The view's own operations are the only writers of the store.
\<close>

datatype call =
  FetchCall "bookmark list response"
| InsertCall "bookmark list response"
| DeleteCall string "unit response"

datatype notification =
  InsertEvent bookmark
| DeleteEvent old_row

record world =
  view :: dashboard
  mounted :: bool
  started :: bool
  channel :: "string option"
  timers :: "timer list"
  inflight :: "call list"
  feed :: "notification list"
  session :: "string option"
  store :: "bookmark list"

definition init_world :: "string option \<Rightarrow> bookmark list \<Rightarrow> world" where
  "init_world sess rows =
     \<lparr>view = initial, mounted = True, started = False, channel = None, timers = [],
      inflight = [], feed = [], session = sess, store = rows\<rparr>"

definition failed :: "string \<Rightarrow> 'a response" where
  "failed m = \<lparr>data = None, err = Some m\<rparr>"

definition drop_nth :: "nat \<Rightarrow> 'a list \<Rightarrow> 'a list" where
  "drop_nth k xs = take k xs @ drop (Suc k) xs"

text \<open>\<^verbatim>\<open>setTimeout(callback, 500)\<close>, when the handler reached it.\<close>

definition scheduled :: "timer option \<Rightarrow> timer list" where
  "scheduled t = (case t of None \<Rightarrow> [] | Some x \<Rightarrow> [x])"

text \<open>The identifiers a timer, an awaited call or a notification carries.\<close>

definition rows_of :: "bookmark list option \<Rightarrow> bookmark list" where
  "rows_of d = (case d of None \<Rightarrow> [] | Some rs \<Rightarrow> rs)"

definition timer_ids :: "timer \<Rightarrow> string list" where
  "timer_ids t =
     (case t of InsertFallback d \<Rightarrow> map bid (rows_of d)
              | DeleteFallback i \<Rightarrow> [i])"

definition call_ids :: "call \<Rightarrow> string list" where
  "call_ids c =
     (case c of FetchCall r \<Rightarrow> map bid (rows_of (data r))
              | InsertCall r \<Rightarrow> map bid (rows_of (data r))
              | DeleteCall i r \<Rightarrow> [i])"

definition note_ids :: "notification \<Rightarrow> string list" where
  "note_ids n = (case n of InsertEvent b \<Rightarrow> [bid b] | DeleteEvent old \<Rightarrow> [old_id old])"

definition mentioned :: "world \<Rightarrow> string list" where
  "mentioned w =
     map bid (store w) @ map bid (bookmarks (view w)) @ concat (map timer_ids (timers w))
     @ concat (map call_ids (inflight w)) @ concat (map note_ids (feed w))"

text \<open>
  The mount: the first effect runs \<^verbatim>\<open>checkAuth\<close>; the fetch it issues is served by the
  store (or fails with the message \<open>fail\<close>); the second effect subscribes the channel
  once \<^verbatim>\<open>user\<close> is set.
\<close>

definition do_auth :: "string option \<Rightarrow> world \<Rightarrow> world option" where
  "do_auth fail w =
     (if mounted w \<and> \<not> started w then
        (case checkAuth_begin (session w) (view w) of
           (s', rq, redirect) \<Rightarrow>
             (case rq of
                None \<Rightarrow> Some (w\<lparr>view := s', started := True, channel := user s'\<rparr>)
              | Some (SelectReq tbl eqs col asc) \<Rightarrow>
                  Some (w\<lparr>view := s', started := True, channel := user s',
                          inflight := inflight w @
                            [FetchCall (case fail of
                               Some m \<Rightarrow> failed m
                             | None \<Rightarrow> \<lparr>data = Some (store_select eqs col asc (store w)),
                                        err = None\<rparr>)]\<rparr>)
              | Some (InsertReq tbl uid t u) \<Rightarrow> None
              | Some (DeleteReq tbl eqs) \<Rightarrow> None))
      else None)"

text \<open>
  The setters of \<^verbatim>\<open>useState\<close> outside an event of the view (in a continuation after an
  \<^verbatim>\<open>await\<close>, in a timer callback): React applies the update while the component is
  mounted and drops it once the component is unmounted.
\<close>

definition set_state :: "world \<Rightarrow> dashboard \<Rightarrow> dashboard" where
  "set_state w s' = (if mounted w then s' else view w)"

text \<open>
  The answer of the \<open>k\<close>-th awaited call arrives and its handler continues. A
  continuation runs whether or not the view is still mounted: after the teardown its
  state updates are dropped, its \<^verbatim>\<open>setTimeout\<close> still takes effect.
\<close>

definition do_answer :: "nat \<Rightarrow> world \<Rightarrow> world option" where
  "do_answer k w =
     (if k < length (inflight w) then
        (case inflight w ! k of
           FetchCall r \<Rightarrow>
             Some (w\<lparr>view := set_state w (checkAuth_resume r (view w)),
                     inflight := drop_nth k (inflight w)\<rparr>)
         | InsertCall r \<Rightarrow>
             (case handleSubmit_resume r (view w) of
                (s', t) \<Rightarrow> Some (w\<lparr>view := set_state w s', inflight := drop_nth k (inflight w),
                                   timers := timers w @ scheduled t\<rparr>))
         | DeleteCall i r \<Rightarrow>
             (case handleDelete_resume i r (view w) of
                (s', t) \<Rightarrow> Some (w\<lparr>view := set_state w s', inflight := drop_nth k (inflight w),
                                   timers := timers w @ scheduled t\<rparr>)))
      else None)"

text \<open>
  The form is submitted (it is rendered once \<^verbatim>\<open>loading\<close> is false; its button is
  disabled while \<^verbatim>\<open>submitting\<close>). The store serves the insert when it is issued, with
  an identifier \<open>new_id\<close> that is not empty and occurs nowhere yet, or the call fails
  with \<open>fail\<close>. The inserted row is notified to the channel when \<open>notified\<close>; otherwise
  the notification is missing.
\<close>

definition do_submit :: "string option \<Rightarrow> string \<Rightarrow> nat \<Rightarrow> bool \<Rightarrow> world \<Rightarrow> world option" where
  "do_submit fail new_id ts notified w =
     (if mounted w \<and> \<not> loading (view w) \<and> \<not> submitting (view w) then
        (case handleSubmit_begin (view w) of
           (s', None) \<Rightarrow> Some (w\<lparr>view := s'\<rparr>)
         | (s', Some (InsertReq tbl uid t u)) \<Rightarrow>
             (case fail of
                Some m \<Rightarrow> Some (w\<lparr>view := s', inflight := inflight w @ [InsertCall (failed m)]\<rparr>)
              | None \<Rightarrow>
                  (case session w of
                     None \<Rightarrow> None
                   | Some auth \<Rightarrow>
                       (if new_id = [] \<or> new_id \<in> set (mentioned w) then None
                        else (case store_insert auth new_id ts uid t u (store w) of
                          (rows', r) \<Rightarrow>
                            Some (w\<lparr>view := s', inflight := inflight w @ [InsertCall r],
                                    store := rows',
                                    feed := feed w @
                                      (if notified
                                       then map InsertEvent
                                              (filter (\<lambda>b. channel w = Some (user_id b)) (rows_of (data r)))
                                       else [])\<rparr>)))))
         | (s', Some (SelectReq tbl eqs col asc)) \<Rightarrow> None
         | (s', Some (DeleteReq tbl eqs)) \<Rightarrow> None)
      else None)"

text \<open>
  The delete button of a displayed bookmark is clicked (the list is rendered once
  \<^verbatim>\<open>loading\<close> and \<^verbatim>\<open>fetchingBookmarks\<close> are false; the button of the bookmark being
  deleted is disabled). The rows that leave the store are notified to the channel when
  \<open>notified\<close>.
\<close>

definition do_delete :: "string \<Rightarrow> string option \<Rightarrow> bool \<Rightarrow> world \<Rightarrow> world option" where
  "do_delete i fail notified w =
     (if mounted w \<and> \<not> loading (view w) \<and> \<not> fetchingBookmarks (view w)
         \<and> some_id i (bookmarks (view w)) \<and> deleting (view w) \<noteq> Some i then
        (case handleDelete_begin i (view w) of
           (s', None) \<Rightarrow> Some (w\<lparr>view := s'\<rparr>)
         | (s', Some (DeleteReq tbl eqs)) \<Rightarrow>
             (case fail of
                Some m \<Rightarrow> Some (w\<lparr>view := s', inflight := inflight w @ [DeleteCall i (failed m)]\<rparr>)
              | None \<Rightarrow>
                  (case session w of
                     None \<Rightarrow> None
                   | Some auth \<Rightarrow>
                       (case store_delete auth eqs (store w) of
                          (rows', r) \<Rightarrow>
                            Some (w\<lparr>view := s', inflight := inflight w @ [DeleteCall i r],
                                    store := rows',
                                    feed := feed w @
                                      (if notified
                                       then map (\<lambda>b. DeleteEvent
                                                   \<lparr>old_id = bid b, old_user_id = Some (user_id b)\<rparr>)
                                              (filter (\<lambda>b. channel w = Some (user_id b) \<and> b \<notin> set rows')
                                                 (store w))
                                       else [])\<rparr>))))
         | (s', Some (SelectReq tbl eqs col asc)) \<Rightarrow> None
         | (s', Some (InsertReq tbl uid t u)) \<Rightarrow> None)
      else None)"

text \<open>The subscribed channel hands the \<open>k\<close>-th pending notification to its handler.\<close>

definition do_deliver :: "nat \<Rightarrow> world \<Rightarrow> world option" where
  "do_deliver k w =
     (case channel w of
        None \<Rightarrow> None
      | Some uid \<Rightarrow>
          (if k < length (feed w) then
             Some (w\<lparr>view := (view w)\<lparr>bookmarks :=
                       (case feed w ! k of
                          InsertEvent new \<Rightarrow> realtime_insert uid new (bookmarks (view w))
                        | DeleteEvent old \<Rightarrow> realtime_delete old (bookmarks (view w)))\<rparr>,
                     feed := drop_nth k (feed w)\<rparr>)
           else None))"

text \<open>
  The oldest timer runs its callback, which does nothing but call \<^verbatim>\<open>setBookmarks\<close> with
  its updater.
\<close>

definition do_timeout :: "world \<Rightarrow> world option" where
  "do_timeout w =
     (case timers w of
        [] \<Rightarrow> None
      | t # ts \<Rightarrow>
          Some (w\<lparr>view := set_state w ((view w)\<lparr>bookmarks := fire t (bookmarks (view w))\<rparr>),
                  timers := ts\<rparr>))"

text \<open>
  Teardown: the cleanup of the second effect calls \<^verbatim>\<open>channel.unsubscribe()\<close> (lines 110
  to 112). The source has no \<^verbatim>\<open>clearTimeout\<close>: the timers that are set stay set.
\<close>

definition do_unmount :: "world \<Rightarrow> world option" where
  "do_unmount w = (if mounted w then Some (w\<lparr>mounted := False, channel := None\<rparr>) else None)"

datatype action =
  Auth "string option"
| Answer nat
| Type_title string
| Type_url string
| Dismiss
| Submit "string option" string nat bool
| Click_delete string "string option" bool
| Deliver nat
| Timeout
| Unmount

definition exec :: "action \<Rightarrow> world \<Rightarrow> world option" where
  "exec a w =
     (case a of
        Auth fail \<Rightarrow> do_auth fail w
      | Answer k \<Rightarrow> do_answer k w
      | Type_title x \<Rightarrow>
          (if mounted w \<and> \<not> loading (view w) then Some (w\<lparr>view := (view w)\<lparr>title := x\<rparr>\<rparr>)
           else None)
      | Type_url x \<Rightarrow>
          (if mounted w \<and> \<not> loading (view w) then Some (w\<lparr>view := (view w)\<lparr>url := x\<rparr>\<rparr>)
           else None)
      | Dismiss \<Rightarrow>
          (if mounted w \<and> \<not> loading (view w) then Some (w\<lparr>view := (view w)\<lparr>error := None\<rparr>\<rparr>)
           else None)
      | Submit fail new_id ts notified \<Rightarrow> do_submit fail new_id ts notified w
      | Click_delete i fail notified \<Rightarrow> do_delete i fail notified w
      | Deliver k \<Rightarrow> do_deliver k w
      | Timeout \<Rightarrow> do_timeout w
      | Unmount \<Rightarrow> do_unmount w)"

fun run :: "action list \<Rightarrow> world \<Rightarrow> world option" where
  "run [] w = Some w"
| "run (a # as) w = (case exec a w of None \<Rightarrow> None | Some w' \<Rightarrow> run as w')"

section \<open>What a run is measured by\<close>


definition shown_ids :: "world \<Rightarrow> string list" where
  "shown_ids w = map bid (bookmarks (view w))"

definition owned :: "string option \<Rightarrow> bookmark list \<Rightarrow> string list" where
  "owned u rows = map bid (filter (\<lambda>b. u = Some (user_id b)) rows)"

definition owned_ids :: "world \<Rightarrow> string list" where
  "owned_ids w = owned (user (view w)) (store w)"



text \<open>The identifiers of the deletes awaited (\<^verbatim>\<open>handleDelete\<close> between its two halves).\<close>

definition delete_ids :: "call list \<Rightarrow> string list" where
  "delete_ids cs =
     concat (map (\<lambda>c. case c of DeleteCall i r \<Rightarrow> [i] | FetchCall r \<Rightarrow> [] | InsertCall r \<Rightarrow> []) cs)"

text \<open>
  The identifiers whose removal from the list is still to come by a delete fallback:
  one that is scheduled, or one that the successful answer under way will schedule.
  \<open>note_deletes\<close> are the identifiers of the DELETE notifications under way.
\<close>

definition timer_deletes :: "timer list \<Rightarrow> string list" where
  "timer_deletes ts =
     concat (map (\<lambda>t. case t of DeleteFallback i \<Rightarrow> [i] | InsertFallback d \<Rightarrow> []) ts)"

definition call_deletes :: "call list \<Rightarrow> string list" where
  "call_deletes cs =
     concat (map (\<lambda>c. case c of DeleteCall i r \<Rightarrow> (if err r = None then [i] else [])
                        | FetchCall r \<Rightarrow> [] | InsertCall r \<Rightarrow> []) cs)"


definition pending_deletes :: "world \<Rightarrow> string list" where
  "pending_deletes w = timer_deletes (timers w) @ call_deletes (inflight w)"

text \<open>
  The identifier an insert fallback would add (that of \<^verbatim>\<open>data[0]\<close>), for the fallbacks
  scheduled and for those the successful answers under way will schedule.
\<close>

definition first_id :: "bookmark list option \<Rightarrow> string list" where
  "first_id d = map bid (take 1 (rows_of d))"

definition timer_inserts :: "timer list \<Rightarrow> string list" where
  "timer_inserts ts =
     concat (map (\<lambda>t. case t of InsertFallback d \<Rightarrow> first_id d
                        | DeleteFallback i \<Rightarrow> []) ts)"


text \<open>
  A record is gone when the store holds no row of the user with its identifier and no
  delete fallback for it is still to come. An insert is stale when it brings a record
  that is gone: the delivery of an INSERT notification for it, or the run of an insert
  fallback for it. A run is timely when none of its steps is a stale insert.
\<close>

definition gone :: "string \<Rightarrow> world \<Rightarrow> bool" where
  "gone x w \<longleftrightarrow> x \<notin> set (owned_ids w) \<and> x \<notin> set (pending_deletes w)"



section \<open>Invariants of the runs\<close>

text \<open>No identifier anywhere is the empty string (the store's identifiers are UUIDs).\<close>

definition nonempty :: "string list \<Rightarrow> bool" where
  "nonempty xs \<longleftrightarrow> (\<forall>i \<in> set xs. i \<noteq> [])"

definition ids_ok :: "world \<Rightarrow> bool" where
  "ids_ok w \<longleftrightarrow>
     (\<forall>b \<in> set (store w). bid b \<noteq> [])
     \<and> (\<forall>b \<in> set (bookmarks (view w)). bid b \<noteq> [])
     \<and> (\<forall>t \<in> set (timers w). nonempty (timer_ids t))
     \<and> (\<forall>c \<in> set (inflight w). nonempty (call_ids c))
     \<and> (\<forall>n \<in> set (feed w). nonempty (note_ids n))"

text \<open>
  The \<^verbatim>\<open>deleting\<close> marker names exactly the delete awaited, if any; once the view is
  unmounted the marker may stay as it was when the answer arrives.
\<close>

definition marker_inv :: "world \<Rightarrow> bool" where
  "marker_inv w \<longleftrightarrow>
     (delete_ids (inflight w) = (case deleting (view w) of None \<Rightarrow> [] | Some i \<Rightarrow> [i])
      \<or> \<not> mounted w \<and> delete_ids (inflight w) = [])
     \<and> (deleting (view w) \<noteq> None \<longrightarrow> user (view w) \<noteq> None)
     \<and> deleting (view w) \<noteq> Some []"


section \<open>Particular runs\<close>




text \<open>
  From the mount: the load; a bookmark is created and the answer arrives, which sets the
  insert fallback; the view is unmounted before the 500 have passed.
\<close>

definition unmount_run :: "action list" where
  "unmount_run =
     [Auth None, Answer 0, Type_title ''A'', Type_url ''https://a.example'',
      Submit None ''1'' 0 True, Answer 0, Unmount]"

text \<open>From the mount, with one row of the user in the store: the load, and a click on delete.\<close>

definition busy_run :: "action list" where
  "busy_run = [Auth None, Answer 0, Click_delete ''1'' None True]"

definition one_row :: "bookmark list" where
  "one_row = [\<lparr>bid = ''1'', user_id = ''u'', b_title = ''A'', b_url = ''https://a.example'',
               created_at = 0\<rparr>]"

section \<open>Basic facts about the updaters\<close>

lemma some_id_iff: "some_id i current \<longleftrightarrow> i \<in> bid ` set current"
  by (auto simp: some_id_def list_ex_iff)

lemma without_id_idle: "\<not> some_id i current \<Longrightarrow> without_id i current = current"
  by (simp add: without_id_def some_id_def list_ex_iff)

lemma ids_without_id: "bid ` set (without_id i current) = bid ` set current - {i}"
  by (auto simp: without_id_def)

lemma delete_fallback_eq: "delete_fallback i current = without_id i current"
  by (simp add: delete_fallback_def without_id_idle)

lemma without_id_twice: "without_id i (without_id i current) = without_id i current"
  by (simp add: without_id_def)

section \<open>Claims about the updaters\<close>

text \<open>
  C3. On every bookmark list and for every identifier, the realtime DELETE handler and
  the delete fallback remove the same entries; running both, in either order, gives the
  list that either gives alone; the result has no entry with that identifier, and the
  entries with other identifiers are kept in their order. Both updaters are total: no
  branch of either raises.
\<close>

theorem C3_delete_idempotent:
  "realtime_delete \<lparr>old_id = i, old_user_id = ou\<rparr> current = delete_fallback i current
   \<and> delete_fallback i (realtime_delete \<lparr>old_id = i, old_user_id = ou\<rparr> current)
       = delete_fallback i current
   \<and> realtime_delete \<lparr>old_id = i, old_user_id = ou\<rparr> (delete_fallback i current)
       = realtime_delete \<lparr>old_id = i, old_user_id = ou\<rparr> current
   \<and> \<not> some_id i (delete_fallback i current)
   \<and> delete_fallback i current = filter (\<lambda>b. bid b \<noteq> i) current"
proof -
  have "\<not> some_id i (without_id i current)"
    by (simp add: some_id_iff ids_without_id)
  then show ?thesis
    by (simp add: realtime_delete_def delete_fallback_eq without_id_twice)
       (simp add: without_id_def)
qed

text \<open>
  C10. The realtime INSERT handler leaves the list as it is when the owner of
  \<^verbatim>\<open>payload.new\<close> is not the current identity. The realtime DELETE handler reads the
  identifier of \<^verbatim>\<open>payload.old\<close> only: whatever owner the old row names (or none), and
  whoever is logged in, it removes the entries with that identifier.
\<close>

theorem C10_owner_check_insert_only:
  "(user_id new \<noteq> uid \<longrightarrow> realtime_insert uid new current = current)
   \<and> realtime_delete \<lparr>old_id = i, old_user_id = ou\<rparr> current
       = filter (\<lambda>b. bid b \<noteq> i) current
   \<and> setBookmarks uid (RealtimeDelete \<lparr>old_id = i, old_user_id = ou\<rparr>) current
       = setBookmarks uid' (RealtimeDelete \<lparr>old_id = i, old_user_id = ou'\<rparr>) current"
  by (simp add: realtime_insert_def realtime_delete_def without_id_def setBookmarks_def)

theorem C10_witness:
  "user_id \<lparr>bid = ''7'', user_id = ''v'', b_title = ''T'', b_url = ''U'', created_at = 1\<rparr> \<noteq> ''u''
   \<and> realtime_insert ''u''
        \<lparr>bid = ''7'', user_id = ''v'', b_title = ''T'', b_url = ''U'', created_at = 1\<rparr> [] = []
   \<and> realtime_delete \<lparr>old_id = ''3'', old_user_id = Some ''v''\<rparr>
        [\<lparr>bid = ''3'', user_id = ''u'', b_title = ''A'', b_url = ''B'', created_at = 0\<rparr>] = []"
  using C10_owner_check_insert_only
    [where new = "\<lparr>bid = ''7'', user_id = ''v'', b_title = ''T'', b_url = ''U'', created_at = 1\<rparr>"
       and uid = "''u''" and current = "[]"]
    C10_owner_check_insert_only
    [where i = "''3''" and ou = "Some ''v''"
       and current = "[\<lparr>bid = ''3'', user_id = ''u'', b_title = ''A'', b_url = ''B'', created_at = 0\<rparr>]"]
  by simp

section \<open>No duplicate identifiers\<close>

lemma distinct_without_id: "distinct (map bid current) \<Longrightarrow> distinct (map bid (without_id i current))"
  by (simp add: without_id_def distinct_map_filter)

lemma distinct_realtime_insert:
  "distinct (map bid current) \<Longrightarrow> distinct (map bid (realtime_insert uid new current))"
  by (simp add: realtime_insert_def some_id_iff)

lemma distinct_insert_fallback:
  "distinct (map bid current) \<Longrightarrow> distinct (map bid (insert_fallback d current))"
  by (simp add: insert_fallback_def some_id_iff split: option.splits list.splits)

lemma distinct_fire: "distinct (map bid current) \<Longrightarrow> distinct (map bid (fire t current))"
  by (cases t) (simp_all add: fire_def distinct_insert_fallback delete_fallback_eq distinct_without_id)

lemma distinct_setBookmarks:
  assumes "distinct (map bid current)"
    and "\<And>d. u = Fetched d \<Longrightarrow> distinct (map bid d)"
  shows "distinct (map bid (setBookmarks uid u current))"
  using assms
  by (cases u)
     (simp_all add: setBookmarks_def distinct_realtime_insert realtime_delete_def
        distinct_without_id distinct_fire)

lemma insert_pair_fallback_first:
  "realtime_insert uid r (insert_fallback (Some (r # rs)) current)
     = insert_fallback (Some (r # rs)) current"
  by (simp add: realtime_insert_def insert_fallback_def some_id_def)

lemma insert_pair_notification_first:
  "insert_fallback (Some (r # rs)) (realtime_insert uid r current)
     = insert_fallback (Some (r # rs)) current"
  by (simp add: realtime_insert_def insert_fallback_def some_id_def)

text \<open>
  C1. Starting from a list without duplicate identifiers, every sequence of calls of
  \<^verbatim>\<open>setBookmarks\<close> (the realtime INSERT and DELETE handlers and the two fallbacks, for
  any records, any number of times and in any order, and fetched row sets that have no
  duplicate themselves) ends in a list without duplicate identifiers: the INSERT handler
  and the insert fallback both look for the identifier before they prepend. For one
  record, the notification and the fallback, in either order, give the list the fallback
  alone gives, on any list.
\<close>

theorem C1_no_duplicate_ids:
  assumes "distinct (map bid current)"
    and "\<forall>d. Fetched d \<in> set us \<longrightarrow> distinct (map bid d)"
  shows "distinct (map bid (fold (setBookmarks uid) us current))
       \<and> realtime_insert uid r (insert_fallback (Some (r # rs)) any)
           = insert_fallback (Some (r # rs)) any
       \<and> insert_fallback (Some (r # rs)) (realtime_insert uid r any)
           = insert_fallback (Some (r # rs)) any"
proof -
  have "distinct (map bid (fold (setBookmarks uid) us current))"
    using assms
  proof (induction us arbitrary: current)
    case Nil
    then show ?case by simp
  next
    case (Cons u us)
    have "distinct (map bid (setBookmarks uid u current))"
      using Cons.prems by (intro distinct_setBookmarks) auto
    moreover have "\<forall>d. Fetched d \<in> set us \<longrightarrow> distinct (map bid d)"
      using Cons.prems(2) by simp
    ultimately show ?case
      using Cons.IH by simp
  qed
  then show ?thesis
    by (simp add: insert_pair_fallback_first insert_pair_notification_first)
qed

theorem C1_witness:
  "distinct (map bid ([] :: bookmark list))
   \<and> distinct (map bid (fold (setBookmarks ''u'')
        [Fallback (InsertFallback (Some
           [\<lparr>bid = ''7'', user_id = ''u'', b_title = ''T'', b_url = ''U'', created_at = 1\<rparr>])),
         RealtimeInsert
           \<lparr>bid = ''7'', user_id = ''u'', b_title = ''T'', b_url = ''U'', created_at = 1\<rparr>]
        []))
   \<and> fold (setBookmarks ''u'')
        [Fallback (InsertFallback (Some
           [\<lparr>bid = ''7'', user_id = ''u'', b_title = ''T'', b_url = ''U'', created_at = 1\<rparr>])),
         RealtimeInsert
           \<lparr>bid = ''7'', user_id = ''u'', b_title = ''T'', b_url = ''U'', created_at = 1\<rparr>]
        []
      = [\<lparr>bid = ''7'', user_id = ''u'', b_title = ''T'', b_url = ''U'', created_at = 1\<rparr>]"
  using C1_no_duplicate_ids
    [where current = "[]"
       and us = "[Fallback (InsertFallback (Some
           [\<lparr>bid = ''7'', user_id = ''u'', b_title = ''T'', b_url = ''U'', created_at = 1\<rparr>])),
         RealtimeInsert
           \<lparr>bid = ''7'', user_id = ''u'', b_title = ''T'', b_url = ''U'', created_at = 1\<rparr>]"
       and uid = "''u''"]
  by (simp add: setBookmarks_def fire_def insert_fallback_def realtime_insert_def some_id_def)

section \<open>Claims about the handlers\<close>

text \<open>
  C5. When the store answers a create or a delete with an error, the handler sets the
  user-visible error message (the prefix and the store's message), schedules no
  fallback timer and leaves the bookmark list as it was; the part of either handler
  that runs before the store call does not touch the list either.
\<close>

theorem C5_store_error_no_mutation:
  "(err r = Some m \<longrightarrow>
      error (fst (handleSubmit_resume r s)) = Some (''Failed to add bookmark: '' @ m)
      \<and> bookmarks (fst (handleSubmit_resume r s)) = bookmarks s
      \<and> snd (handleSubmit_resume r s) = None)
   \<and> (err r' = Some m' \<longrightarrow>
      error (fst (handleDelete_resume i r' s)) = Some (''Failed to delete bookmark: '' @ m')
      \<and> bookmarks (fst (handleDelete_resume i r' s)) = bookmarks s
      \<and> snd (handleDelete_resume i r' s) = None)
   \<and> bookmarks (fst (handleSubmit_begin s)) = bookmarks s
   \<and> bookmarks (fst (handleDelete_begin i s)) = bookmarks s"
  by (simp add: handleSubmit_resume_def handleDelete_resume_def handleSubmit_begin_def
        handleDelete_begin_def split: option.splits)

theorem C5_witness:
  "err \<lparr>data = None, err = Some ''boom''\<rparr> = Some ''boom''
   \<and> handleSubmit_resume \<lparr>data = None, err = Some ''boom''\<rparr> initial
       = (initial\<lparr>error := Some ''Failed to add bookmark: boom''\<rparr>, None)
   \<and> handleDelete_resume ''3'' \<lparr>data = None, err = Some ''boom''\<rparr> initial
       = (initial\<lparr>error := Some ''Failed to delete bookmark: boom''\<rparr>, None)"
  using C5_store_error_no_mutation
    [where r = "\<lparr>data = None, err = Some ''boom''\<rparr>" and m = "''boom''"
       and r' = "\<lparr>data = None, err = Some ''boom''\<rparr>" and m' = "''boom''"
       and s = initial and i = "''3''"]
  by (simp add: handleSubmit_resume_def handleDelete_resume_def initial_def)

text \<open>
  C7. When the form is submitted with an empty title or an empty URL, \<^verbatim>\<open>handleSubmit\<close>
  issues no store call and leaves the bookmark list as it is; with a user logged in
  (the form is only rendered then) it leaves the whole component state as it is.
\<close>

theorem C7_empty_field_no_store_call:
  assumes "title s = [] \<or> url s = []"
  shows "snd (handleSubmit_begin s) = None
       \<and> bookmarks (fst (handleSubmit_begin s)) = bookmarks s
       \<and> (user s \<noteq> None \<longrightarrow> fst (handleSubmit_begin s) = s)"
  using assms by (auto simp: handleSubmit_begin_def split: option.splits)

theorem C7_witness:
  "(title (initial\<lparr>user := Some ''u'', url := ''https://a.example''\<rparr>) = []
      \<or> url (initial\<lparr>user := Some ''u'', url := ''https://a.example''\<rparr>) = [])
   \<and> user (initial\<lparr>user := Some ''u'', url := ''https://a.example''\<rparr>) \<noteq> None
   \<and> handleSubmit_begin (initial\<lparr>user := Some ''u'', url := ''https://a.example''\<rparr>)
       = (initial\<lparr>user := Some ''u'', url := ''https://a.example''\<rparr>, None)"
  using C7_empty_field_no_store_call
    [of "initial\<lparr>user := Some ''u'', url := ''https://a.example''\<rparr>"]
  by (simp add: initial_def prod_eq_iff)

section \<open>The initial load\<close>

lemma store_select_desc:
  "sorted_wrt (\<lambda>a b. created_at b \<le> created_at a) (store_select eqs ''created_at'' False rows)"
proof -
  have "sorted (map created_at (sort_key created_at (filter (matches eqs) rows)))"
    by (rule sorted_sort_key)
  then have "sorted_wrt (\<lambda>a b. created_at a \<le> created_at b)
               (sort_key created_at (filter (matches eqs) rows))"
    by (simp add: sorted_map)
  then have "sorted_wrt (\<lambda>a b. created_at b \<le> created_at a)
               (rev (sort_key created_at (filter (matches eqs) rows)))"
    by (simp add: sorted_wrt_rev)
  then show ?thesis
    by (simp add: store_select_def)
qed

lemma store_select_set:
  "set (store_select [(''user_id'', uid)] ''created_at'' False rows)
     = {b \<in> set rows. user_id b = uid}"
  by (auto simp: store_select_def matches_def column_def)

text \<open>
  C6, as stated, fails in its first half. While the fetch of the initial load is
  awaited the realtime subscription is already live; when an INSERT notification for a
  row of the user is handled then and the fetch fails afterwards, the error message is
  set and the list holds that row: it is not empty.
\<close>

theorem C6_counterexample:
  "error (initial_load ''u''
       [RealtimeInsert \<lparr>bid = ''1'', user_id = ''u'', b_title = ''A'',
                         b_url = ''https://a.example'', created_at = 0\<rparr>]
       \<lparr>data = None, err = Some ''down''\<rparr>) = Some ''Failed to load bookmarks: down''
   \<and> bookmarks (initial_load ''u''
       [RealtimeInsert \<lparr>bid = ''1'', user_id = ''u'', b_title = ''A'',
                         b_url = ''https://a.example'', created_at = 0\<rparr>]
       \<lparr>data = None, err = Some ''down''\<rparr>)
     = [\<lparr>bid = ''1'', user_id = ''u'', b_title = ''A'', b_url = ''https://a.example'',
         created_at = 0\<rparr>]
   \<and> bookmarks (initial_load ''u''
       [RealtimeInsert \<lparr>bid = ''1'', user_id = ''u'', b_title = ''A'',
                         b_url = ''https://a.example'', created_at = 0\<rparr>]
       \<lparr>data = None, err = Some ''down''\<rparr>) \<noteq> []"
  by (simp add: initial_load_def checkAuth_begin_def fetchBookmarks_begin_def
        checkAuth_resume_def fetchBookmarks_resume_def initial_def setBookmarks_def
        realtime_insert_def some_id_def)

text \<open>
  C6, amended. The initial load for a session of \<open>uid\<close> asks the store for the rows
  whose \<^verbatim>\<open>user_id\<close> is \<open>uid\<close>, by \<^verbatim>\<open>created_at\<close> descending. If the store answers
  with an error, the error message is set and the bookmark list is left as it was when
  the answer arrived: what the calls of \<^verbatim>\<open>setBookmarks\<close> made while the fetch was
  awaited built from the empty list, hence empty when there was none
  (\<^verbatim>\<open>fetchBookmarks\<close> leaves any list as it was). If the store answers with rows, the
  list is replaced by exactly these rows, whatever happened in between. The rows the
  store returns for that request are the rows of \<open>uid\<close>, by creation timestamp
  descending.
\<close>

theorem C6_initial_load:
  assumes "uid \<noteq> []"
  shows "fst (snd (checkAuth_begin (Some uid) initial))
           = Some (SelectReq ''bookmarks'' [(''user_id'', uid)] ''created_at'' False)
       \<and> (err r = Some m \<longrightarrow>
            bookmarks (initial_load uid us r) = fold (setBookmarks uid) us []
            \<and> bookmarks (initial_load uid [] r) = []
            \<and> error (initial_load uid us r) = Some (''Failed to load bookmarks: '' @ m)
            \<and> bookmarks (fetchBookmarks_resume r s) = bookmarks s)
       \<and> (err r = None \<and> data r = Some d \<longrightarrow>
            bookmarks (initial_load uid us r) = d
            \<and> error (initial_load uid us r) = None
            \<and> bookmarks (fetchBookmarks_resume r s) = d)
       \<and> bookmarks (initial_load uid us
            \<lparr>data = Some (store_select [(''user_id'', uid)] ''created_at'' False rows), err = None\<rparr>)
           = store_select [(''user_id'', uid)] ''created_at'' False rows
       \<and> sorted_wrt (\<lambda>a b. created_at b \<le> created_at a)
            (store_select [(''user_id'', uid)] ''created_at'' False rows)
       \<and> set (store_select [(''user_id'', uid)] ''created_at'' False rows)
           = {b \<in> set rows. user_id b = uid}"
proof -
  have "fst (snd (checkAuth_begin (Some uid) initial))
          = Some (SelectReq ''bookmarks'' [(''user_id'', uid)] ''created_at'' False)"
    using assms by (simp add: checkAuth_begin_def fetchBookmarks_begin_def)
  moreover have "fst (checkAuth_begin (Some uid) initial)
          = initial\<lparr>user := Some uid, fetchingBookmarks := True, error := None\<rparr>"
    using assms by (simp add: checkAuth_begin_def fetchBookmarks_begin_def)
  ultimately show ?thesis
    by (simp add: initial_load_def checkAuth_resume_def fetchBookmarks_resume_def
          initial_def store_select_desc store_select_set)
qed

theorem C6_witness:
  "''u'' \<noteq> []
   \<and> err \<lparr>data = None, err = Some ''down''\<rparr> = Some ''down''
   \<and> bookmarks (initial_load ''u'' [] \<lparr>data = None, err = Some ''down''\<rparr>) = []
   \<and> error (initial_load ''u'' [] \<lparr>data = None, err = Some ''down''\<rparr>)
       = Some ''Failed to load bookmarks: down''
   \<and> bookmarks (initial_load ''u'' []
        \<lparr>data = Some [\<lparr>bid = ''1'', user_id = ''u'', b_title = ''A'',
                        b_url = ''https://a.example'', created_at = 0\<rparr>], err = None\<rparr>)
       = [\<lparr>bid = ''1'', user_id = ''u'', b_title = ''A'',
           b_url = ''https://a.example'', created_at = 0\<rparr>]"
  using C6_initial_load
    [where uid = "''u''" and us = "[]" and r = "\<lparr>data = None, err = Some ''down''\<rparr>"
       and m = "''down''"]
    C6_initial_load
    [where uid = "''u''" and us = "[]"
       and r = "\<lparr>data = Some [\<lparr>bid = ''1'', user_id = ''u'', b_title = ''A'',
                        b_url = ''https://a.example'', created_at = 0\<rparr>], err = None\<rparr>"
       and d = "[\<lparr>bid = ''1'', user_id = ''u'', b_title = ''A'',
                        b_url = ''https://a.example'', created_at = 0\<rparr>]"]
  by simp

section \<open>Scope of the delete request\<close>

lemma matches_delete_filters:
  "matches [(''id'', i), (''user_id'', u)] b \<longleftrightarrow> bid b = i \<and> user_id b = u"
  by (simp add: matches_def column_def)

lemma store_delete_scoped:
  "store_delete a [(''id'', i), (''user_id'', u)] rows =
     (filter (\<lambda>b. \<not> (bid b = i \<and> user_id b = u \<and> user_id b = a)) rows,
      \<lparr>data = None, err = None\<rparr>)"
  by (simp add: store_delete_def matches_delete_filters)

text \<open>
  C9, as stated, fails in its consequence. For the user \<^verbatim>\<open>u\<close> and the identifier of a
  row that another identity owns, the store, under its delete policy, removes nothing
  and reports no error; \<^verbatim>\<open>handleDelete\<close> then takes the success branch: it sets no
  error message and schedules the delete fallback. The delete is not observed as a
  failure.
\<close>

theorem C9_counterexample:
  "snd (handleDelete_begin ''9'' (initial\<lparr>user := Some ''u''\<rparr>))
     = Some (DeleteReq ''bookmarks'' [(''id'', ''9''), (''user_id'', ''u'')])
   \<and> store_delete ''u'' [(''id'', ''9''), (''user_id'', ''u'')]
        [\<lparr>bid = ''9'', user_id = ''v'', b_title = ''A'', b_url = ''B'', created_at = 0\<rparr>]
       = ([\<lparr>bid = ''9'', user_id = ''v'', b_title = ''A'', b_url = ''B'', created_at = 0\<rparr>],
          \<lparr>data = None, err = None\<rparr>)
   \<and> handleDelete_resume ''9'' \<lparr>data = None, err = None\<rparr>
        (initial\<lparr>user := Some ''u'', deleting := Some ''9''\<rparr>)
       = (initial\<lparr>user := Some ''u''\<rparr>, Some (DeleteFallback ''9''))
   \<and> error (initial\<lparr>user := Some ''u''\<rparr>) = None"
  by (simp add: handleDelete_begin_def handleDelete_resume_def truthy_def initial_def
        store_delete_scoped)

text \<open>
  C9, amended. Every request \<^verbatim>\<open>handleDelete\<close> issues is a delete on \<^verbatim>\<open>bookmarks\<close>
  filtered by the identifier it was called with and by the id of the logged-in user.
  The store, serving such a request for whatever identity is authenticated, removes no
  row of another owner than this user: the rows it removes have that identifier and
  that owner, so the request is never a cross-identity deletion. The store reports no
  error, also when the identifier belongs to another identity and nothing is removed:
  \<^verbatim>\<open>handleDelete\<close> then clears the marker, sets no message and schedules the delete
  fallback.
\<close>

theorem C9_delete_scoped_by_id_and_owner:
  "(snd (handleDelete_begin i s) = Some rq \<longrightarrow>
      user s \<noteq> None
      \<and> rq = DeleteReq ''bookmarks'' [(''id'', i), (''user_id'', the (user s))])
   \<and> (\<forall>b \<in> set rows. user_id b \<noteq> u \<longrightarrow>
        b \<in> set (fst (store_delete a [(''id'', i), (''user_id'', u)] rows)))
   \<and> (\<forall>b \<in> set rows. b \<notin> set (fst (store_delete a [(''id'', i), (''user_id'', u)] rows)) \<longrightarrow>
        bid b = i \<and> user_id b = u \<and> a = u)
   \<and> err (snd (store_delete a [(''id'', i), (''user_id'', u)] rows)) = None
   \<and> handleDelete_resume i (snd (store_delete a [(''id'', i), (''user_id'', u)] rows)) s
       = (s\<lparr>deleting := None\<rparr>, Some (DeleteFallback i))"
proof (intro conjI impI ballI)
  assume "snd (handleDelete_begin i s) = Some rq"
  then show "user s \<noteq> None"
    and "rq = DeleteReq ''bookmarks'' [(''id'', i), (''user_id'', the (user s))]"
    by (auto simp: handleDelete_begin_def split: option.splits if_splits)
next
  fix b assume "b \<in> set rows" "user_id b \<noteq> u"
  then show "b \<in> set (fst (store_delete a [(''id'', i), (''user_id'', u)] rows))"
    by (simp add: store_delete_scoped)
next
  fix b
  assume "b \<in> set rows" "b \<notin> set (fst (store_delete a [(''id'', i), (''user_id'', u)] rows))"
  then show "bid b = i" and "user_id b = u" and "a = u"
    by (auto simp: store_delete_scoped)
next
  show "err (snd (store_delete a [(''id'', i), (''user_id'', u)] rows)) = None"
    by (simp add: store_delete_scoped)
next
  show "handleDelete_resume i (snd (store_delete a [(''id'', i), (''user_id'', u)] rows)) s
       = (s\<lparr>deleting := None\<rparr>, Some (DeleteFallback i))"
    by (simp add: store_delete_scoped handleDelete_resume_def)
qed

theorem C9_witness:
  "snd (handleDelete_begin ''9'' (initial\<lparr>user := Some ''u''\<rparr>))
     = Some (DeleteReq ''bookmarks'' [(''id'', ''9''), (''user_id'', ''u'')])
   \<and> fst (store_delete ''u'' [(''id'', ''9''), (''user_id'', ''u'')]
        [\<lparr>bid = ''9'', user_id = ''v'', b_title = ''A'', b_url = ''B'', created_at = 0\<rparr>,
         \<lparr>bid = ''9'', user_id = ''u'', b_title = ''C'', b_url = ''D'', created_at = 1\<rparr>])
       = [\<lparr>bid = ''9'', user_id = ''v'', b_title = ''A'', b_url = ''B'', created_at = 0\<rparr>]
   \<and> user_id \<lparr>bid = ''9'', user_id = ''v'', b_title = ''A'', b_url = ''B'', created_at = 0\<rparr>
       \<noteq> ''u''
   \<and> bid \<lparr>bid = ''9'', user_id = ''u'', b_title = ''C'', b_url = ''D'', created_at = 1\<rparr> = ''9''
   \<and> user_id \<lparr>bid = ''9'', user_id = ''u'', b_title = ''C'', b_url = ''D'', created_at = 1\<rparr>
       = ''u''"
  using C9_delete_scoped_by_id_and_owner
    [where i = "''9''" and s = "initial\<lparr>user := Some ''u''\<rparr>" and u = "''u''" and a = "''u''"
       and rq = "DeleteReq ''bookmarks'' [(''id'', ''9''), (''user_id'', ''u'')]"
       and rows = "[\<lparr>bid = ''9'', user_id = ''v'', b_title = ''A'', b_url = ''B'', created_at = 0\<rparr>,
         \<lparr>bid = ''9'', user_id = ''u'', b_title = ''C'', b_url = ''D'', created_at = 1\<rparr>]"]
  by (simp add: handleDelete_begin_def truthy_def initial_def store_delete_scoped)

section \<open>The steps of the environment, case by case\<close>

lemma checkAuth_begin_cases:
  "checkAuth_begin None s = (s, None, True)"
  "checkAuth_begin (Some []) s = (s\<lparr>user := Some [], loading := False\<rparr>, None, False)"
  "uid \<noteq> [] \<Longrightarrow> checkAuth_begin (Some uid) s =
     (s\<lparr>user := Some uid, fetchingBookmarks := True, error := None\<rparr>,
      Some (SelectReq ''bookmarks'' [(''user_id'', uid)] ''created_at'' False), False)"
  by (simp_all add: checkAuth_begin_def fetchBookmarks_begin_def)

lemma do_auth_cases:
  assumes "do_auth f w = Some w'"
  obtains
    (no_session) "session w = None" "w' = w\<lparr>started := True, channel := user (view w)\<rparr>"
  | (no_id) "session w = Some []"
      "w' = w\<lparr>view := (view w)\<lparr>user := Some [], loading := False\<rparr>, started := True,
               channel := Some []\<rparr>"
  | (fetch) uid r where "session w = Some uid" "uid \<noteq> []" "set (rows_of (data r)) \<subseteq> set (store w)"
      "w' = w\<lparr>view := (view w)\<lparr>user := Some uid, fetchingBookmarks := True, error := None\<rparr>,
               started := True, channel := Some uid,
               inflight := inflight w @ [FetchCall r]\<rparr>"
proof -
  from assms have en: "mounted w" "\<not> started w"
    by (simp_all add: do_auth_def split: if_splits)
  show thesis
  proof (cases "session w")
    case None
    with assms en have "w' = w\<lparr>started := True, channel := user (view w)\<rparr>"
      by (simp add: do_auth_def checkAuth_begin_cases)
    with None show thesis by (rule no_session)
  next
    case (Some uid)
    show thesis
    proof (cases "uid = []")
      case True
      with assms en Some show thesis
        by (intro no_id) (simp_all add: do_auth_def checkAuth_begin_cases)
    next
      case False
      define r :: "bookmark list response" where
        "r = (case f of Some m \<Rightarrow> failed m
              | None \<Rightarrow> \<lparr>data = Some (store_select [(''user_id'', uid)] ''created_at'' False (store w)),
                         err = None\<rparr>)"
      have "set (rows_of (data r)) \<subseteq> set (store w)"
        by (auto simp: r_def rows_of_def failed_def store_select_def split: option.splits)
      moreover from assms en Some False
      have "w' = w\<lparr>view := (view w)\<lparr>user := Some uid, fetchingBookmarks := True, error := None\<rparr>,
               started := True, channel := Some uid,
               inflight := inflight w @ [FetchCall r]\<rparr>"
        by (simp add: do_auth_def checkAuth_begin_cases r_def)
      ultimately show thesis using Some False by (intro fetch[of uid r]) simp_all
    qed
  qed
qed

lemma handleSubmit_begin_cases:
  "user s = None \<Longrightarrow>
     handleSubmit_begin s = (s\<lparr>error := Some ''You must be logged in to add bookmarks''\<rparr>, None)"
  "user s = Some uid \<Longrightarrow> title s = [] \<or> url s = [] \<Longrightarrow> handleSubmit_begin s = (s, None)"
  "user s = Some uid \<Longrightarrow> title s \<noteq> [] \<Longrightarrow> url s \<noteq> [] \<Longrightarrow>
     handleSubmit_begin s =
       (s\<lparr>submitting := True, error := None\<rparr>, Some (InsertReq ''bookmarks'' uid (title s) (url s)))"
  by (auto simp: handleSubmit_begin_def)

lemma handleDelete_begin_cases:
  "user s = None \<Longrightarrow>
     handleDelete_begin i s = (s\<lparr>error := Some ''You must be logged in to delete bookmarks''\<rparr>, None)"
  "user s = Some uid \<Longrightarrow> truthy (deleting s) \<Longrightarrow> handleDelete_begin i s = (s, None)"
  "user s = Some uid \<Longrightarrow> \<not> truthy (deleting s) \<Longrightarrow>
     handleDelete_begin i s =
       (s\<lparr>deleting := Some i, error := None\<rparr>,
        Some (DeleteReq ''bookmarks'' [(''id'', i), (''user_id'', uid)]))"
  by (auto simp: handleDelete_begin_def)

lemma do_submit_cases:
  assumes "do_submit f new_id ts notified w = Some w'"
  obtains
    (rejected) v where "w' = w\<lparr>view := v\<rparr>" "bookmarks v = bookmarks (view w)"
      "deleting v = deleting (view w)" "user v = user (view w)"
  | (failed) m where
      "w' = w\<lparr>view := (view w)\<lparr>submitting := True, error := None\<rparr>,
               inflight := inflight w @ [InsertCall (failed m)]\<rparr>"
  | (inserted) uid where "session w = Some uid" "user (view w) = Some uid"
      "new_id \<noteq> []" "new_id \<notin> set (mentioned w)"
      "w' = w\<lparr>view := (view w)\<lparr>submitting := True, error := None\<rparr>,
               inflight := inflight w @
                 [InsertCall \<lparr>data = Some [\<lparr>bid = new_id, user_id = uid, b_title = title (view w),
                                              b_url = url (view w), created_at = ts\<rparr>],
                              err = None\<rparr>],
               store := store w @ [\<lparr>bid = new_id, user_id = uid, b_title = title (view w),
                                     b_url = url (view w), created_at = ts\<rparr>],
               feed := feed w @
                 (if notified \<and> channel w = Some uid
                  then [InsertEvent \<lparr>bid = new_id, user_id = uid, b_title = title (view w),
                                      b_url = url (view w), created_at = ts\<rparr>]
                  else [])\<rparr>"
proof -
  from assms have en: "mounted w" "\<not> loading (view w)" "\<not> submitting (view w)"
    by (simp_all add: do_submit_def split: if_splits)
  show thesis
  proof (cases "user (view w)")
    case None
    with assms en show thesis
      by (intro rejected[of "(view w)\<lparr>error := Some ''You must be logged in to add bookmarks''\<rparr>"])
         (simp_all add: do_submit_def handleSubmit_begin_cases)
  next
    case (Some uid)
    show thesis
    proof (cases "title (view w) = [] \<or> url (view w) = []")
      case True
      with assms en Some show thesis
        by (intro rejected[of "view w"]) (simp_all add: do_submit_def handleSubmit_begin_cases)
    next
      case False
      then have hb: "handleSubmit_begin (view w) =
          ((view w)\<lparr>submitting := True, error := None\<rparr>,
           Some (InsertReq ''bookmarks'' uid (title (view w)) (url (view w))))"
        using Some by (simp add: handleSubmit_begin_cases)
      show thesis
      proof (cases f)
        case (Some m)
        with assms en hb show thesis
          by (intro failed[of m]) (simp add: do_submit_def)
      next
        case None
        note fNone = None
        show thesis
        proof (cases "session w")
          case None
          with assms en hb fNone show thesis by (simp add: do_submit_def)
        next
          case (Some auth)
          with assms en hb fNone have fresh: "new_id \<noteq> []" "new_id \<notin> set (mentioned w)"
            by (simp_all add: do_submit_def split: if_splits)
          show thesis
          proof (cases "uid = auth")
            case True
            with assms en hb fNone Some fresh \<open>user (view w) = Some uid\<close> show thesis
              by (intro inserted[of uid])
                 (auto simp: do_submit_def store_insert_def rows_of_def Let_def)
          next
            case False
            with en hb fNone Some fresh
            have "do_submit f new_id ts notified w =
                Some (w\<lparr>view := (view w)\<lparr>submitting := True, error := None\<rparr>,
                        inflight := inflight w @ [InsertCall (failed ''not authorized'')]\<rparr>)"
              by (simp add: do_submit_def store_insert_def rows_of_def failed_def)
            with assms show thesis
              by (intro failed[of "''not authorized''"]) simp
          qed
        qed
      qed
    qed
  qed
qed

lemma do_delete_cases:
  assumes "do_delete i f notified w = Some w'"
  obtains
    (ignored) v where "w' = w\<lparr>view := v\<rparr>" "bookmarks v = bookmarks (view w)"
      "deleting v = deleting (view w)" "user v = user (view w)"
  | (failed) uid r where "some_id i (bookmarks (view w))" "user (view w) = Some uid"
      "\<not> truthy (deleting (view w))" "err r \<noteq> None"
      "w' = w\<lparr>view := (view w)\<lparr>deleting := Some i, error := None\<rparr>,
               inflight := inflight w @ [DeleteCall i r]\<rparr>"
  | (served) uid auth rows' evs where "some_id i (bookmarks (view w))" "user (view w) = Some uid"
      "session w = Some auth" "\<not> truthy (deleting (view w))"
      "rows' = filter (\<lambda>b. \<not> (bid b = i \<and> user_id b = uid \<and> user_id b = auth)) (store w)"
      "\<forall>n \<in> set evs. \<exists>old. n = DeleteEvent old \<and> old_id old = i"
      "w' = w\<lparr>view := (view w)\<lparr>deleting := Some i, error := None\<rparr>,
               inflight := inflight w @ [DeleteCall i \<lparr>data = None, err = None\<rparr>],
               store := rows', feed := feed w @ evs\<rparr>"
proof -
  from assms have en: "mounted w" "\<not> loading (view w)" "\<not> fetchingBookmarks (view w)"
    "some_id i (bookmarks (view w))" "deleting (view w) \<noteq> Some i"
    by (simp_all add: do_delete_def split: if_splits)
  show thesis
  proof (cases "user (view w)")
    case None
    with assms en show thesis
      by (intro ignored[of "(view w)\<lparr>error := Some ''You must be logged in to delete bookmarks''\<rparr>"])
         (simp_all add: do_delete_def handleDelete_begin_cases)
  next
    case (Some uid)
    show thesis
    proof (cases "truthy (deleting (view w))")
      case True
      with assms en Some show thesis
        by (intro ignored[of "view w"]) (simp_all add: do_delete_def handleDelete_begin_cases)
    next
      case False
      then have hb: "handleDelete_begin i (view w) =
          ((view w)\<lparr>deleting := Some i, error := None\<rparr>,
           Some (DeleteReq ''bookmarks'' [(''id'', i), (''user_id'', uid)]))"
        using Some by (simp add: handleDelete_begin_cases)
      show thesis
      proof (cases f)
        case (Some m)
        with assms en hb False \<open>user (view w) = Some uid\<close> show thesis
          by (intro failed[of uid "failed m"]) (simp_all add: do_delete_def failed_def)
      next
        case None
        note fNone = None
        show thesis
        proof (cases "session w")
          case None
          with assms en hb fNone show thesis by (simp add: do_delete_def)
        next
          case (Some auth)
          define rows' where
            "rows' = filter (\<lambda>b. \<not> (bid b = i \<and> user_id b = uid \<and> user_id b = auth)) (store w)"
          define evs where "evs = (if notified
               then map (\<lambda>b. DeleteEvent \<lparr>old_id = bid b, old_user_id = Some (user_id b)\<rparr>)
                      (filter (\<lambda>b. channel w = Some (user_id b) \<and> b \<notin> set rows') (store w))
               else [])"
          have "\<forall>n \<in> set evs. \<exists>old. n = DeleteEvent old \<and> old_id old = i"
            by (auto simp: evs_def rows'_def)
          moreover from en hb fNone Some
          have "do_delete i f notified w =
              Some (w\<lparr>view := (view w)\<lparr>deleting := Some i, error := None\<rparr>,
                      inflight := inflight w @ [DeleteCall i \<lparr>data = None, err = None\<rparr>],
                      store := rows', feed := feed w @ evs\<rparr>)"
            unfolding rows'_def evs_def by (simp add: do_delete_def store_delete_scoped)
          with assms
          have "w' = w\<lparr>view := (view w)\<lparr>deleting := Some i, error := None\<rparr>,
                      inflight := inflight w @ [DeleteCall i \<lparr>data = None, err = None\<rparr>],
                      store := rows', feed := feed w @ evs\<rparr>"
            by simp
          ultimately show thesis
            using en Some False \<open>user (view w) = Some uid\<close> rows'_def
            by (intro served[of uid auth rows' evs]) simp_all
        qed
      qed
    qed
  qed
qed

lemma do_answer_cases:
  assumes "do_answer k w = Some w'"
  obtains
    (fetched) r where "k < length (inflight w)" "inflight w ! k = FetchCall r"
      "w' = w\<lparr>view := set_state w (checkAuth_resume r (view w)),
               inflight := drop_nth k (inflight w)\<rparr>"
  | (submitted) r where "k < length (inflight w)" "inflight w ! k = InsertCall r"
      "w' = w\<lparr>view := set_state w (fst (handleSubmit_resume r (view w))),
               inflight := drop_nth k (inflight w),
               timers := timers w @ scheduled (snd (handleSubmit_resume r (view w)))\<rparr>"
  | (deleted) i r where "k < length (inflight w)" "inflight w ! k = DeleteCall i r"
      "w' = w\<lparr>view := set_state w (fst (handleDelete_resume i r (view w))),
               inflight := drop_nth k (inflight w),
               timers := timers w @ scheduled (snd (handleDelete_resume i r (view w)))\<rparr>"
proof -
  from assms have k: "k < length (inflight w)"
    by (simp add: do_answer_def split: if_splits)
  show thesis
  proof (cases "inflight w ! k")
    case (FetchCall r)
    with assms k show thesis by (intro fetched[of r]) (simp_all add: do_answer_def)
  next
    case (InsertCall r)
    with assms k show thesis
      by (intro submitted[of r]) (auto simp: do_answer_def split: prod.splits)
  next
    case (DeleteCall i r)
    with assms k show thesis
      by (intro deleted[of i r]) (auto simp: do_answer_def split: prod.splits)
  qed
qed

lemma do_deliver_cases:
  assumes "do_deliver k w = Some w'"
  obtains
    (inserted) uid new where "channel w = Some uid" "k < length (feed w)"
      "feed w ! k = InsertEvent new"
      "w' = w\<lparr>view := (view w)\<lparr>bookmarks := realtime_insert uid new (bookmarks (view w))\<rparr>,
               feed := drop_nth k (feed w)\<rparr>"
  | (deleted) old where "k < length (feed w)" "feed w ! k = DeleteEvent old"
      "w' = w\<lparr>view := (view w)\<lparr>bookmarks := realtime_delete old (bookmarks (view w))\<rparr>,
               feed := drop_nth k (feed w)\<rparr>"
proof -
  from assms obtain uid where ch: "channel w = Some uid" and k: "k < length (feed w)"
    by (auto simp: do_deliver_def split: option.splits if_splits)
  show thesis
  proof (cases "feed w ! k")
    case (InsertEvent new)
    with assms ch k show thesis by (intro inserted[of uid new]) (simp_all add: do_deliver_def)
  next
    case (DeleteEvent old)
    with assms ch k show thesis by (intro deleted[of old]) (simp_all add: do_deliver_def)
  qed
qed

lemma do_timeout_cases:
  assumes "do_timeout w = Some w'"
  obtains t ts where "timers w = t # ts"
    "w' = w\<lparr>view := set_state w ((view w)\<lparr>bookmarks := fire t (bookmarks (view w))\<rparr>),
             timers := ts\<rparr>"
  using assms by (auto simp: do_timeout_def split: list.splits)


lemma run_invariant:
  assumes "run acts w0 = Some w" and "P w0"
    and "\<And>a v v'. P v \<Longrightarrow> exec a v = Some v' \<Longrightarrow> P v'"
  shows "P w"
  using assms(1,2)
proof (induction acts arbitrary: w0)
  case Nil
  then show ?case by simp
next
  case (Cons a acts)
  then show ?case
    by (auto split: option.splits intro: assms(3))
qed

lemma set_drop_nth: "set (drop_nth k xs) \<subseteq> set xs"
  by (auto simp: drop_nth_def dest: in_set_takeD in_set_dropD)

lemma timer_ids_simps [simp]:
  "timer_ids (InsertFallback d) = map bid (rows_of d)"
  "timer_ids (DeleteFallback i) = [i]"
  by (simp_all add: timer_ids_def)

lemma call_ids_simps [simp]:
  "call_ids (FetchCall r) = map bid (rows_of (data r))"
  "call_ids (InsertCall r) = map bid (rows_of (data r))"
  "call_ids (DeleteCall i r') = [i]"
  by (simp_all add: call_ids_def)

lemma note_ids_simps [simp]:
  "note_ids (InsertEvent b) = [bid b]"
  "note_ids (DeleteEvent old) = [old_id old]"
  by (simp_all add: note_ids_def)

lemma rows_of_simps [simp]:
  "rows_of None = []"
  "rows_of (Some rs) = rs"
  by (simp_all add: rows_of_def)

lemma data_failed [simp]: "data (failed m) = None" "err (failed m) = Some m"
  by (simp_all add: failed_def)

subsection \<open>Identifiers are not empty\<close>

lemma nonempty_simps [simp]:
  "nonempty []"
  "nonempty (i # xs) \<longleftrightarrow> i \<noteq> [] \<and> nonempty xs"
  "nonempty (map bid rs) \<longleftrightarrow> (\<forall>b \<in> set rs. bid b \<noteq> [])"
  by (auto simp: nonempty_def)

lemma ids_ok_call: "ids_ok w \<Longrightarrow> k < length (inflight w) \<Longrightarrow> nonempty (call_ids (inflight w ! k))"
  by (simp add: ids_ok_def)

lemma ids_ok_note: "ids_ok w \<Longrightarrow> k < length (feed w) \<Longrightarrow> nonempty (note_ids (feed w ! k))"
  by (simp add: ids_ok_def)

lemma ids_ok_drop_calls:
  "\<forall>c \<in> set cs. nonempty (call_ids c) \<Longrightarrow> \<forall>c \<in> set (drop_nth k cs). nonempty (call_ids c)"
  using set_drop_nth[of k cs] by blast

lemma ids_ok_drop_notes:
  "\<forall>c \<in> set cs. nonempty (note_ids c) \<Longrightarrow> \<forall>c \<in> set (drop_nth k cs). nonempty (note_ids c)"
  using set_drop_nth[of k cs] by blast

lemma nonempty_realtime_insert:
  "bid new \<noteq> [] \<Longrightarrow> \<forall>b \<in> set current. bid b \<noteq> [] \<Longrightarrow>
   \<forall>b \<in> set (realtime_insert uid new current). bid b \<noteq> []"
  by (simp add: realtime_insert_def)

lemma nonempty_fire:
  "nonempty (timer_ids t) \<Longrightarrow> \<forall>b \<in> set current. bid b \<noteq> [] \<Longrightarrow>
   \<forall>b \<in> set (fire t current). bid b \<noteq> []"
  by (cases t)
     (auto simp: fire_def delete_fallback_eq without_id_def insert_fallback_def
        split: option.splits list.splits)

lemma ids_ok_auth:
  assumes "ids_ok w" "do_auth f w = Some w'" shows "ids_ok w'"
  using assms(2)
proof (cases rule: do_auth_cases)
  case no_session
  with assms(1) show ?thesis by (simp add: ids_ok_def)
next
  case no_id
  with assms(1) show ?thesis by (simp add: ids_ok_def)
next
  case (fetch uid r)
  with assms(1) show ?thesis by (auto simp: ids_ok_def)
qed

lemma ids_ok_answer:
  assumes "ids_ok w" "do_answer k w = Some w'" shows "ids_ok w'"
  using assms(2)
proof (cases rule: do_answer_cases)
  case (fetched r)
  then have "\<forall>b \<in> set (rows_of (data r)). bid b \<noteq> []"
    using ids_ok_call[OF assms(1), of k] by simp
  then show ?thesis
    using assms(1) fetched ids_ok_drop_calls[of "inflight w" k]
    by (auto simp: ids_ok_def set_state_def checkAuth_resume_def fetchBookmarks_resume_def
          split: option.splits)
next
  case (submitted r)
  then have "\<forall>b \<in> set (rows_of (data r)). bid b \<noteq> []"
    using ids_ok_call[OF assms(1), of k] by simp
  then show ?thesis
    using assms(1) submitted ids_ok_drop_calls[of "inflight w" k]
    by (auto simp: ids_ok_def set_state_def handleSubmit_resume_def scheduled_def
          split: option.splits)
next
  case (deleted i r)
  then have "i \<noteq> []"
    using ids_ok_call[OF assms(1), of k] by simp
  then show ?thesis
    using assms(1) deleted ids_ok_drop_calls[of "inflight w" k]
    by (auto simp: ids_ok_def set_state_def handleDelete_resume_def scheduled_def
          split: option.splits)
qed

lemma ids_ok_submit:
  assumes "ids_ok w" "do_submit f new_id ts notified w = Some w'" shows "ids_ok w'"
  using assms(2)
proof (cases rule: do_submit_cases)
  case (rejected v)
  with assms(1) show ?thesis by (simp add: ids_ok_def)
next
  case (failed m)
  with assms(1) show ?thesis by (simp add: ids_ok_def)
next
  case (inserted uid)
  with assms(1) show ?thesis by (auto simp: ids_ok_def)
qed

lemma ids_ok_delete:
  assumes "ids_ok w" "do_delete i f notified w = Some w'" shows "ids_ok w'"
  using assms(2)
proof (cases rule: do_delete_cases)
  case (ignored v)
  with assms(1) show ?thesis by (simp add: ids_ok_def)
next
  case (failed uid r)
  then have "i \<noteq> []"
    using assms(1) by (auto simp: ids_ok_def some_id_iff)
  with assms(1) failed show ?thesis by (simp add: ids_ok_def)
next
  case (served uid auth rows' evs)
  then have "i \<noteq> []"
    using assms(1) by (auto simp: ids_ok_def some_id_iff)
  with assms(1) served show ?thesis by (auto simp: ids_ok_def)
qed

lemma ids_ok_deliver:
  assumes "ids_ok w" "do_deliver k w = Some w'" shows "ids_ok w'"
  using assms(2)
proof (cases rule: do_deliver_cases)
  case (inserted uid new)
  then have "bid new \<noteq> []"
    using ids_ok_note[OF assms(1), of k] by simp
  then show ?thesis
    using assms(1) inserted ids_ok_drop_notes[of "feed w" k]
      nonempty_realtime_insert[of new "bookmarks (view w)" uid]
    by (simp add: ids_ok_def)
next
  case (deleted old)
  then show ?thesis
    using assms(1) ids_ok_drop_notes[of "feed w" k]
    by (auto simp: ids_ok_def realtime_delete_def without_id_def)
qed

lemma ids_ok_timeout:
  assumes "ids_ok w" "do_timeout w = Some w'" shows "ids_ok w'"
  using assms(2)
proof (cases rule: do_timeout_cases)
  case (1 t ts)
  then show ?thesis
    using assms(1) nonempty_fire[of t "bookmarks (view w)"]
    by (simp add: ids_ok_def set_state_def)
qed

lemma ids_ok_exec:
  assumes "ids_ok w" "exec a w = Some w'" shows "ids_ok w'"
proof (cases a)
  case (Auth f)
  with assms show ?thesis by (simp add: exec_def ids_ok_auth)
next
  case (Answer k)
  with assms show ?thesis by (simp add: exec_def ids_ok_answer)
next
  case (Type_title x)
  with assms show ?thesis by (auto simp: exec_def ids_ok_def split: if_splits)
next
  case (Type_url x)
  with assms show ?thesis by (auto simp: exec_def ids_ok_def split: if_splits)
next
  case Dismiss
  with assms show ?thesis by (auto simp: exec_def ids_ok_def split: if_splits)
next
  case (Submit f n ts b)
  with assms show ?thesis by (simp add: exec_def ids_ok_submit)
next
  case (Click_delete i f b)
  with assms show ?thesis by (simp add: exec_def ids_ok_delete)
next
  case (Deliver k)
  with assms show ?thesis by (simp add: exec_def ids_ok_deliver)
next
  case Timeout
  with assms show ?thesis by (simp add: exec_def ids_ok_timeout)
next
  case Unmount
  with assms show ?thesis by (auto simp: exec_def do_unmount_def ids_ok_def split: if_splits)
qed

subsection \<open>The marker and the deletes in flight\<close>

lemma delete_ids_append [simp]: "delete_ids (xs @ ys) = delete_ids xs @ delete_ids ys"
  by (simp add: delete_ids_def)

lemma delete_ids_simps [simp]:
  "delete_ids [] = []"
  "delete_ids (DeleteCall i r # cs) = i # delete_ids cs"
  "delete_ids (FetchCall r' # cs) = delete_ids cs"
  "delete_ids (InsertCall r' # cs) = delete_ids cs"
  by (simp_all add: delete_ids_def)

lemma delete_ids_nth:
  assumes "k < length cs"
  shows "delete_ids cs = delete_ids (take k cs) @ delete_ids [cs ! k] @ delete_ids (drop (Suc k) cs)"
proof -
  have "cs = take k cs @ [cs ! k] @ drop (Suc k) cs"
    using assms by (simp add: id_take_nth_drop)
  then have "delete_ids cs = delete_ids (take k cs @ [cs ! k] @ drop (Suc k) cs)"
    by simp
  then show ?thesis by (simp only: delete_ids_append)
qed

lemma delete_ids_drop_nth_other:
  assumes "k < length cs" "delete_ids [cs ! k] = []"
  shows "delete_ids (drop_nth k cs) = delete_ids cs"
  using delete_ids_nth[OF assms(1)] assms(2) by (simp add: drop_nth_def)

lemma delete_ids_drop_nth_single:
  assumes "k < length cs" "cs ! k = DeleteCall i r" "length (delete_ids cs) \<le> 1"
  shows "delete_ids (drop_nth k cs) = []"
proof -
  have "delete_ids cs = delete_ids (take k cs) @ i # delete_ids (drop (Suc k) cs)"
    using delete_ids_nth[OF assms(1)] assms(2) by simp
  then have "length (delete_ids cs)
      = length (delete_ids (take k cs)) + 1 + length (delete_ids (drop (Suc k) cs))"
    by simp
  with assms(3) have "delete_ids (take k cs) = [] \<and> delete_ids (drop (Suc k) cs) = []"
    by simp
  then show ?thesis by (simp add: drop_nth_def)
qed

lemma marker_inv_length: "marker_inv w \<Longrightarrow> length (delete_ids (inflight w)) \<le> 1"
  by (auto simp: marker_inv_def split: option.splits)

lemma marker_inv_init: "marker_inv (init_world sess rows)"
  by (simp add: marker_inv_def init_world_def initial_def)

lemma marker_inv_idle:
  "marker_inv w \<Longrightarrow> mounted w \<Longrightarrow> \<not> truthy (deleting (view w)) \<Longrightarrow>
   deleting (view w) = None \<and> delete_ids (inflight w) = []"
  by (auto simp: marker_inv_def truthy_def split: option.splits)

lemma marker_inv_exec:
  assumes "marker_inv w" "ids_ok w" "exec a w = Some w'" shows "marker_inv w'"
proof (cases a)
  case (Auth f)
  with assms(3) have "do_auth f w = Some w'" by (simp add: exec_def)
  then show ?thesis
    using assms(1) by (cases rule: do_auth_cases) (auto simp: marker_inv_def)
next
  case (Answer k)
  with assms(3) have "do_answer k w = Some w'" by (simp add: exec_def)
  then show ?thesis
  proof (cases rule: do_answer_cases)
    case (fetched r)
    then have "delete_ids (drop_nth k (inflight w)) = delete_ids (inflight w)"
      by (intro delete_ids_drop_nth_other) simp_all
    moreover have "deleting (set_state w (checkAuth_resume r (view w))) = deleting (view w)"
      "user (set_state w (checkAuth_resume r (view w))) = user (view w)"
      by (simp_all add: set_state_def checkAuth_resume_def fetchBookmarks_resume_def
            split: option.splits)
    ultimately show ?thesis
      using assms(1) fetched(3) by (simp add: marker_inv_def)
  next
    case (submitted r)
    then have "delete_ids (drop_nth k (inflight w)) = delete_ids (inflight w)"
      by (intro delete_ids_drop_nth_other) simp_all
    moreover have "deleting (set_state w (fst (handleSubmit_resume r (view w)))) = deleting (view w)"
      "user (set_state w (fst (handleSubmit_resume r (view w)))) = user (view w)"
      by (simp_all add: set_state_def handleSubmit_resume_def split: option.splits)
    ultimately show ?thesis
      using assms(1) submitted(3) by (simp add: marker_inv_def)
  next
    case (deleted i r)
    then have gone: "delete_ids (drop_nth k (inflight w)) = []"
      using marker_inv_length[OF assms(1)] by (intro delete_ids_drop_nth_single[of _ _ i r]) simp_all
    have u: "user (set_state w (fst (handleDelete_resume i r (view w)))) = user (view w)"
      by (simp add: set_state_def handleDelete_resume_def split: option.splits)
    show ?thesis
    proof (cases "mounted w")
      case True
      then have "deleting (set_state w (fst (handleDelete_resume i r (view w)))) = None"
        by (simp add: set_state_def handleDelete_resume_def split: option.splits)
      with gone deleted(3) show ?thesis by (simp add: marker_inv_def)
    next
      case False
      then have "set_state w (fst (handleDelete_resume i r (view w))) = view w"
        by (simp add: set_state_def)
      with gone deleted(3) False assms(1) show ?thesis by (simp add: marker_inv_def)
    qed
  qed
next
  case (Type_title x)
  with assms show ?thesis by (auto simp: exec_def marker_inv_def split: if_splits)
next
  case (Type_url x)
  with assms show ?thesis by (auto simp: exec_def marker_inv_def split: if_splits)
next
  case Dismiss
  with assms show ?thesis by (auto simp: exec_def marker_inv_def split: if_splits)
next
  case (Submit f n ts b)
  with assms(3) have "do_submit f n ts b w = Some w'" by (simp add: exec_def)
  then show ?thesis
    using assms(1) by (cases rule: do_submit_cases) (auto simp: marker_inv_def)
next
  case (Click_delete i f b)
  with assms(3) have d: "do_delete i f b w = Some w'" by (simp add: exec_def)
  then have m: "mounted w" by (simp add: do_delete_def split: if_splits)
  have ne: "some_id i (bookmarks (view w)) \<Longrightarrow> i \<noteq> []"
    using assms(2) by (auto simp: ids_ok_def some_id_iff)
  note idle = marker_inv_idle[OF assms(1) m]
  from d show ?thesis
  proof (cases rule: do_delete_cases)
    case (ignored v)
    with assms(1) show ?thesis by (simp add: marker_inv_def)
  next
    case (failed uid r)
    with assms(1) ne idle show ?thesis by (simp add: marker_inv_def)
  next
    case (served uid auth rows' evs)
    with assms(1) ne idle show ?thesis by (simp add: marker_inv_def)
  qed
next
  case (Deliver k)
  with assms(3) have "do_deliver k w = Some w'" by (simp add: exec_def)
  then show ?thesis
    using assms(1) by (cases rule: do_deliver_cases) (simp_all add: marker_inv_def)
next
  case Timeout
  with assms(3) have "do_timeout w = Some w'" by (simp add: exec_def)
  then show ?thesis
    using assms(1) by (cases rule: do_timeout_cases) (auto simp: marker_inv_def set_state_def)
next
  case Unmount
  with assms show ?thesis by (auto simp: exec_def do_unmount_def marker_inv_def split: if_splits)
qed

lemma reachable_marker_inv:
  assumes "run acts (init_world sess rows) = Some w" "\<forall>b \<in> set rows. bid b \<noteq> []"
  shows "marker_inv w \<and> ids_ok w"
proof -
  have "ids_ok (init_world sess rows)"
    using assms(2) by (simp add: ids_ok_def init_world_def initial_def)
  then have "marker_inv (init_world sess rows) \<and> ids_ok (init_world sess rows)"
    by (simp add: marker_inv_init)
  with assms(1) show ?thesis
    by (rule run_invariant) (auto intro: marker_inv_exec ids_ok_exec)
qed

text \<open>
  C4. In every world a run reaches from the mount (over a store whose identifiers are
  not empty), at most one delete is awaited, and while one is awaited the
  \<^verbatim>\<open>deleting\<close> marker is set; in a mounted view the marker is set only while a delete
  is awaited. While it is set, \<^verbatim>\<open>handleDelete\<close>, called for any identifier, returns
  the state as it is and issues no request; a click on any delete button leaves the
  whole world (list, store, calls awaited) as it is. The answer to the awaited delete,
  an error or not, clears the marker.
\<close>

theorem C4_single_delete_in_flight:
  assumes "run acts (init_world sess rows) = Some w" and "\<forall>b \<in> set rows. bid b \<noteq> []"
  shows "length (delete_ids (inflight w)) \<le> 1
       \<and> (delete_ids (inflight w) \<noteq> [] \<longrightarrow> deleting (view w) \<noteq> None)
       \<and> (mounted w \<longrightarrow> deleting (view w) \<noteq> None \<longrightarrow> delete_ids (inflight w) \<noteq> [])
       \<and> (deleting (view w) \<noteq> None \<longrightarrow>
            (\<forall>j. handleDelete_begin j (view w) = (view w, None))
            \<and> (\<forall>j f n w'. exec (Click_delete j f n) w = Some w' \<longrightarrow> w' = w))
       \<and> deleting (fst (handleDelete_resume i r (view w))) = None"
proof -
  from reachable_marker_inv[OF assms] have inv: "marker_inv w" ..
  have cleared: "deleting (fst (handleDelete_resume i r (view w))) = None"
    by (simp add: handleDelete_resume_def split: option.splits)
  have busy: "handleDelete_begin j (view w) = (view w, None)" if "deleting (view w) \<noteq> None" for j
    using inv that by (auto simp: marker_inv_def handleDelete_begin_def truthy_def)
  have "w' = w" if "deleting (view w) \<noteq> None" "exec (Click_delete j f n) w = Some w'" for j f n w'
    using that busy[of j] by (auto simp: exec_def do_delete_def split: if_splits)
  with busy inv cleared marker_inv_length[OF inv] show ?thesis
    by (auto simp: marker_inv_def split: option.splits)
qed

theorem C4_witness:
  "run busy_run (init_world (Some ''u'') one_row) \<noteq> None
   \<and> map bid one_row = [''1'']
   \<and> mounted (the (run busy_run (init_world (Some ''u'') one_row)))
   \<and> deleting (view (the (run busy_run (init_world (Some ''u'') one_row)))) = Some ''1''
   \<and> delete_ids (inflight (the (run busy_run (init_world (Some ''u'') one_row)))) = [''1'']
   \<and> (\<forall>j. handleDelete_begin j (view (the (run busy_run (init_world (Some ''u'') one_row))))
            = (view (the (run busy_run (init_world (Some ''u'') one_row))), None))"
proof -
  have h: "run busy_run (init_world (Some ''u'') one_row) \<noteq> None"
    "deleting (view (the (run busy_run (init_world (Some ''u'') one_row)))) = Some ''1''"
    "delete_ids (inflight (the (run busy_run (init_world (Some ''u'') one_row)))) = [''1'']"
    "mounted (the (run busy_run (init_world (Some ''u'') one_row)))"
    by code_simp+
  have rows: "\<forall>b \<in> set one_row. bid b \<noteq> []"
    by (simp add: one_row_def)
  from h(1) have "run busy_run (init_world (Some ''u'') one_row)
      = Some (the (run busy_run (init_world (Some ''u'') one_row)))"
    by simp
  from C4_single_delete_in_flight[OF this rows] h show ?thesis
    by (simp add: one_row_def)
qed

section \<open>After the teardown\<close>

lemma unmounted_exec:
  assumes "\<not> mounted w" "channel w = None" "exec a w = Some w'"
  shows "view w' = view w \<and> \<not> mounted w' \<and> channel w' = None"
proof (cases a)
  case (Auth f)
  with assms show ?thesis by (simp add: exec_def do_auth_def)
next
  case (Answer k)
  with assms(3) have "do_answer k w = Some w'" by (simp add: exec_def)
  then show ?thesis
    using assms(1,2) by (cases rule: do_answer_cases) (simp_all add: set_state_def)
next
  case (Type_title x)
  with assms show ?thesis by (simp add: exec_def)
next
  case (Type_url x)
  with assms show ?thesis by (simp add: exec_def)
next
  case Dismiss
  with assms show ?thesis by (simp add: exec_def)
next
  case (Submit f n ts b)
  with assms show ?thesis by (simp add: exec_def do_submit_def)
next
  case (Click_delete i f b)
  with assms show ?thesis by (simp add: exec_def do_delete_def)
next
  case (Deliver k)
  with assms show ?thesis by (simp add: exec_def do_deliver_def)
next
  case Timeout
  with assms(3) have "do_timeout w = Some w'" by (simp add: exec_def)
  then show ?thesis
    using assms(1,2) by (cases rule: do_timeout_cases) (simp add: set_state_def)
next
  case Unmount
  with assms show ?thesis by (simp add: exec_def do_unmount_def)
qed

lemma unmounted_run:
  assumes "run acts w = Some w'" "\<not> mounted w" "channel w = None"
  shows "view w' = view w \<and> \<not> mounted w' \<and> channel w' = None"
  using assms
proof (induction acts arbitrary: w)
  case Nil
  then show ?case by simp
next
  case (Cons a acts)
  from Cons.prems(1) obtain v where v: "exec a w = Some v" "run acts v = Some w'"
    by (auto split: option.splits)
  from unmounted_exec[OF Cons.prems(2,3) v(1)] Cons.IH[OF v(2)] show ?case
    by simp
qed

text \<open>
  C8. The teardown unsubscribes the channel and leaves the view and the timers that are
  set as they are (no timer is cancelled). In every run after the teardown, whatever
  timers run, answers arrive and notifications are under way, the state of the view,
  its bookmark list included, stays as the teardown left it: the channel stays
  unsubscribed, so no notification is delivered, and the updates of the timer
  callbacks and of the continuations are dropped.
\<close>

theorem C8_no_state_change_after_unmount:
  assumes "exec Unmount w = Some w1" and "run acts w1 = Some w2"
  shows "channel w1 = None \<and> view w1 = view w \<and> timers w1 = timers w
       \<and> view w2 = view w1 \<and> bookmarks (view w2) = bookmarks (view w)
       \<and> channel w2 = None \<and> exec (Deliver k) w2 = None"
proof -
  from assms(1) have u: "\<not> mounted w1" "channel w1 = None" "view w1 = view w"
    "timers w1 = timers w"
    by (auto simp: exec_def do_unmount_def split: if_splits)
  from unmounted_run[OF assms(2) u(1,2)] u show ?thesis
    by (simp add: exec_def do_deliver_def)
qed

theorem C8_witness:
  "exec Unmount (the (run (butlast unmount_run) (init_world (Some ''u'') [])))
     = Some (the (run unmount_run (init_world (Some ''u'') [])))
   \<and> run [Timeout] (the (run unmount_run (init_world (Some ''u'') [])))
     = Some (the (run (unmount_run @ [Timeout]) (init_world (Some ''u'') [])))
   \<and> length (feed (the (run unmount_run (init_world (Some ''u'') [])))) = 1
   \<and> length (timers (the (run unmount_run (init_world (Some ''u'') [])))) = 1
   \<and> timers (the (run (unmount_run @ [Timeout]) (init_world (Some ''u'') []))) = []
   \<and> shown_ids (the (run unmount_run (init_world (Some ''u'') []))) = []
   \<and> bookmarks (view (the (run (unmount_run @ [Timeout]) (init_world (Some ''u'') [])))) = []
   \<and> exec (Deliver 0) (the (run (unmount_run @ [Timeout]) (init_world (Some ''u'') []))) = None"
proof -
  have h: "exec Unmount (the (run (butlast unmount_run) (init_world (Some ''u'') [])))
     = Some (the (run unmount_run (init_world (Some ''u'') [])))"
    "run [Timeout] (the (run unmount_run (init_world (Some ''u'') [])))
     = Some (the (run (unmount_run @ [Timeout]) (init_world (Some ''u'') [])))"
    "length (feed (the (run unmount_run (init_world (Some ''u'') [])))) = 1"
    "length (timers (the (run unmount_run (init_world (Some ''u'') [])))) = 1"
    "timers (the (run (unmount_run @ [Timeout]) (init_world (Some ''u'') []))) = []"
    "shown_ids (the (run unmount_run (init_world (Some ''u'') []))) = []"
    "bookmarks (view (the (run (butlast unmount_run) (init_world (Some ''u'') [])))) = []"
    by code_simp+
  from C8_no_state_change_after_unmount[OF h(1,2), of 0] h show ?thesis
    by simp
qed

section \<open>Consistency with the store\<close>

subsection \<open>Pending work, by list\<close>

lemma timer_deletes_simps [simp]:
  "timer_deletes [] = []"
  "timer_deletes (DeleteFallback i # ts) = i # timer_deletes ts"
  "timer_deletes (InsertFallback d # ts) = timer_deletes ts"
  "timer_deletes (ts @ ts') = timer_deletes ts @ timer_deletes ts'"
  by (simp_all add: timer_deletes_def)

lemma timer_inserts_simps [simp]:
  "timer_inserts [] = []"
  "timer_inserts (DeleteFallback i # ts) = timer_inserts ts"
  "timer_inserts (InsertFallback d # ts) = first_id d @ timer_inserts ts"
  "timer_inserts (ts @ ts') = timer_inserts ts @ timer_inserts ts'"
  by (simp_all add: timer_inserts_def)












subsection \<open>What the updaters do to the identifiers shown\<close>




lemma first_id_own [simp]: "first_id (Some [r]) = [bid r]"
  by (simp add: first_id_def)

lemma first_id_failed [simp]: "first_id None = []"
  by (simp add: first_id_def)

subsection \<open>The invariant of timely runs\<close>















end
